theory Spec2Isabelle
  imports Complex_Main "HOL-Library.Monad_Syntax"
begin

section \<open>The data model of dml.c\<close>

text \<open>
  The library works on C \<open>float\<close> and \<open>int\<close> values. An \<open>int\<close> is embedded as an
  integer, and every operation of the source whose result could leave the 32-bit range
  checks the range. A \<open>float\<close> is an IEEE 754 binary32 value, see the next subsection.

  Every function returns an \<open>option\<close>. \<open>None\<close> stands for a run that leaves the
  embedding: a read or write outside an object, a read of a cell that was never written,
  signed overflow, integer division by zero, and a float division by a zero.
\<close>

definition INT_MAX :: int where
  "INT_MAX = 2147483647"

definition INT_MIN :: int where
  "INT_MIN = - 2147483648"

definition in_int :: "int \<Rightarrow> bool" where
  "in_int i = (INT_MIN \<le> i \<and> i \<le> INT_MAX)"

definition c_sub :: "int \<Rightarrow> int \<Rightarrow> int option" where
  \<comment> \<open>\<open>a - b\<close> on \<open>int\<close>\<close>
  "c_sub a b = (if in_int (a - b) then Some (a - b) else None)"

definition c_div :: "int \<Rightarrow> int \<Rightarrow> int option" where
  \<comment> \<open>\<open>a / b\<close> on \<open>int\<close>: the quotient is truncated towards zero\<close>
  "c_div a b =
     (if b = 0 \<or> (a = INT_MIN \<and> b = - 1) then None
      else Some (sgn a * sgn b * (\<bar>a\<bar> div \<bar>b\<bar>)))"

definition c_mod :: "int \<Rightarrow> int \<Rightarrow> int option" where
  \<comment> \<open>\<open>a % b\<close> on \<open>int\<close>: the remainder has the sign of \<open>a\<close>\<close>
  "c_mod a b =
     (if b = 0 \<or> (a = INT_MIN \<and> b = - 1) then None
      else Some (sgn a * (\<bar>a\<bar> mod \<bar>b\<bar>)))"

subsection \<open>The type float\<close>

text \<open>
  A \<open>float\<close> is a finite binary32 number, an infinity or a NaN. \<open>Fin x\<close> is the finite
  number with the value \<open>x\<close>; the two zeros of binary32 are the one value \<open>Fin 0\<close>:
  they compare equal, and in this library they differ in the sign of a quotient by zero
  and in their printed text only. The NaNs are one value.

  Every operation computes the exact result and rounds it to the nearest binary32
  number, a tie to the one with the even significand, as the default rounding mode of
  IEEE 754 does; an expression of type \<open>float\<close> is evaluated in \<open>float\<close>, one rounding
  for each operator.
\<close>

datatype cfloat = Fin real | PInf | NInf | NaN

definition round_even :: "real \<Rightarrow> int" where
  \<comment> \<open>the nearest integer, a tie to the even one\<close>
  "round_even y =
     (let f = \<lfloor>y\<rfloor>; d = y - of_int f
      in if d < 1 / 2 then f else if 1 / 2 < d then f + 1 else if even f then f else f + 1)"

function expo_from :: "real \<Rightarrow> int \<Rightarrow> int" where
  "expo_from a e = (if e < 128 \<and> 2 powi (e + 1) \<le> a then expo_from a (e + 1) else e)"
  by pat_completeness auto
termination
  by (relation "measure (\<lambda>(a, e). nat (128 - e))") auto

declare expo_from.simps [simp del]

definition expo :: "real \<Rightarrow> int" where
  \<comment> \<open>the binary exponent of \<open>x\<close>: \<open>2 powi e \<le> \<bar>x\<bar> < 2 powi (e + 1)\<close>; it is -126 for
     a subnormal number and for zero, and 128 at most\<close>
  "expo x = expo_from \<bar>x\<bar> (- 126)"

definition ulp :: "real \<Rightarrow> real" where
  \<comment> \<open>the distance of the binary32 numbers around \<open>x\<close>: 24 bits of significand\<close>
  "ulp x = 2 powi (expo x - 23)"

definition round32 :: "real \<Rightarrow> cfloat" where
  \<comment> \<open>rounding to binary32; a result of magnitude \<open>2 ^ 128\<close> or more is an infinity\<close>
  "round32 x =
     (let r = of_int (round_even (x / ulp x)) * ulp x
      in if 2 ^ 128 \<le> r then PInf else if r \<le> - (2 ^ 128) then NInf else Fin r)"

definition is_float32 :: "real \<Rightarrow> bool" where
  \<comment> \<open>\<open>x\<close> is the value of a finite binary32 number: rounding leaves it as it is\<close>
  "is_float32 x = (round32 x = Fin x)"

fun is_neg :: "cfloat \<Rightarrow> bool" where
  "is_neg (Fin x) = (x < 0)"
| "is_neg NInf = True"
| "is_neg PInf = False"
| "is_neg NaN = False"

fun fneg :: "cfloat \<Rightarrow> cfloat" where
  "fneg (Fin x) = Fin (- x)"
| "fneg PInf = NInf"
| "fneg NInf = PInf"
| "fneg NaN = NaN"

fun fadd :: "cfloat \<Rightarrow> cfloat \<Rightarrow> cfloat" where
  \<comment> \<open>\<open>a + b\<close> on \<open>float\<close>\<close>
  "fadd (Fin x) (Fin y) = round32 (x + y)"
| "fadd NaN b = NaN"
| "fadd a NaN = NaN"
| "fadd PInf NInf = NaN"
| "fadd NInf PInf = NaN"
| "fadd PInf b = PInf"
| "fadd a PInf = PInf"
| "fadd NInf b = NInf"
| "fadd a NInf = NInf"

definition fsub :: "cfloat \<Rightarrow> cfloat \<Rightarrow> cfloat" where
  \<comment> \<open>\<open>a - b\<close> on \<open>float\<close>\<close>
  "fsub a b = fadd a (fneg b)"

fun fmul :: "cfloat \<Rightarrow> cfloat \<Rightarrow> cfloat" where
  \<comment> \<open>\<open>a * b\<close> on \<open>float\<close>; an infinity times zero is a NaN\<close>
  "fmul (Fin x) (Fin y) = round32 (x * y)"
| "fmul NaN b = NaN"
| "fmul a NaN = NaN"
| "fmul a b =
     (if a = Fin 0 \<or> b = Fin 0 then NaN
      else if is_neg a = is_neg b then PInf else NInf)"

fun fquot :: "cfloat \<Rightarrow> cfloat \<Rightarrow> cfloat" where
  \<comment> \<open>\<open>a / b\<close> on \<open>float\<close> for a divisor other than zero\<close>
  "fquot (Fin x) (Fin y) = round32 (x / y)"
| "fquot NaN b = NaN"
| "fquot a NaN = NaN"
| "fquot (Fin x) b = Fin 0"
| "fquot a (Fin y) = (if is_neg a = (y < 0) then PInf else NInf)"
| "fquot a b = NaN"

definition fdiv :: "cfloat \<Rightarrow> cfloat \<Rightarrow> cfloat option" where
  \<comment> \<open>\<open>a / b\<close> on \<open>float\<close>; the quotient by a zero is an infinity with the sign of that
     zero or a NaN, and the sign of a zero is not kept\<close>
  "fdiv a b = (if b = Fin 0 then None else Some (fquot a b))"

fun flt :: "cfloat \<Rightarrow> cfloat \<Rightarrow> bool" where
  \<comment> \<open>\<open>a < b\<close> on \<open>float\<close>; a comparison with a NaN is false\<close>
  "flt NaN b = False"
| "flt a NaN = False"
| "flt (Fin x) (Fin y) = (x < y)"
| "flt a NInf = False"
| "flt NInf b = True"
| "flt PInf b = False"
| "flt a PInf = True"

definition float_of_int :: "int \<Rightarrow> cfloat" where
  \<comment> \<open>the conversion \<open>(float)i\<close>\<close>
  "float_of_int i = round32 (real_of_int i)"

subsection \<open>Tables and vectors\<close>

text \<open>
  Modelled from the spec: the type \<open>csvData_t\<close> is declared in \<open>open_csv.h\<close>, which is
  not part of the sources. The functions of dml.c use its fields \<open>rows\<close>, \<open>cols\<close> and
  \<open>dataFrame\<close>, where \<open>dataFrame[row][col]\<close> is a \<open>float\<close>; the spec describes it as a
  rectangular table with row and column counts known up front.
\<close>

record csvData_t =
  rows :: int
  cols :: int
  dataFrame :: "cfloat list list"

definition cell :: "csvData_t \<Rightarrow> int \<Rightarrow> int \<Rightarrow> cfloat option" where
  \<comment> \<open>the read \<open>df->dataFrame[row][col]\<close>\<close>
  "cell df row col =
     (if 0 \<le> row \<and> row < int (length (dataFrame df)) \<and>
         0 \<le> col \<and> col < int (length (dataFrame df ! nat row))
      then Some (dataFrame df ! nat row ! nat col) else None)"

definition wf_table :: "csvData_t \<Rightarrow> bool" where
  \<comment> \<open>the invariant of the table: rectangular, at least one row and one column\<close>
  "wf_table df =
     (1 \<le> rows df \<and> rows df \<le> INT_MAX \<and> 1 \<le> cols df \<and> cols df \<le> INT_MAX \<and>
      int (length (dataFrame df)) = rows df \<and>
      list_all (\<lambda>r. int (length r) = cols df) (dataFrame df))"

definition column :: "csvData_t \<Rightarrow> int \<Rightarrow> cfloat list" where
  \<comment> \<open>the values of column \<open>col\<close>, from row 0 down\<close>
  "column df col = map (\<lambda>r. r ! nat col) (dataFrame df)"

text \<open>
  A vector in memory is a list of cells; a cell that was allocated and not yet written
  holds \<open>None\<close>. The allocation itself is taken to succeed.
\<close>

type_synonym fvec = "cfloat option list"

definition malloc_floats :: "int \<Rightarrow> fvec" where
  \<comment> \<open>\<open>(float *)malloc(sizeof(float) * len)\<close>\<close>
  "malloc_floats len = replicate (nat len) None"


definition poke :: "fvec \<Rightarrow> int \<Rightarrow> cfloat \<Rightarrow> fvec option" where
  \<comment> \<open>the write \<open>*(v + i) = x\<close>\<close>
  "poke v i x = (if 0 \<le> i \<and> i < int (length v) then Some (v[nat i := Some x]) else None)"

definition floats :: "real list \<Rightarrow> fvec" where
  \<comment> \<open>the vector that holds the finite numbers \<open>xs\<close>\<close>
  "floats xs = map (\<lambda>x. Some (Fin x)) xs"

section \<open>The functions of dml.c\<close>

subsection \<open>head and tail\<close>

text \<open>
  The standard output is the list of the calls that wrote to it, oldest first: a
  \<open>printf\<close> keeps its format string and its argument, so that the text of a number is
  left to the C library.
\<close>

datatype out_call =
    PrintfD string int
  | PrintfF string cfloat
  | PrintfS string
  | Puts string

definition head_top :: string where
  "head_top = ''*** ================ TOP %d ROWS ================ ***'' @ [CHR 0x0A]"

definition head_bottom :: string where
  "head_bottom = ''*** ============================================= ***'' @ [CHR 0x0A]"

definition head_cell :: string where
  "head_cell = ''%10.3f'' @ [CHR 0x09]"

definition tail_top :: string where
  "tail_top = ''*** ================ BOTTOM %d ROWS ================ ***'' @ [CHR 0x0A]"

definition tail_bottom :: string where
  "tail_bottom = ''*** ========================================== ***'' @ [CHR 0x0A]"

definition tail_cell :: string where
  "tail_cell = ''%10.2f ''"

function print_cols :: "string \<Rightarrow> csvData_t \<Rightarrow> int \<Rightarrow> int \<Rightarrow> out_call list \<Rightarrow> out_call list option" where
  \<comment> \<open>the inner loop of \<open>head\<close> and of \<open>tail\<close>, which differ in the format only\<close>
  "print_cols fmt df row col out =
     (if col < cols df
      then do { v \<leftarrow> cell df row col; print_cols fmt df row (col + 1) (out @ [PrintfF fmt v]) }
      else Some out)"
  by pat_completeness auto
termination
  by (relation "measure (\<lambda>(fmt, df, row, col, out). nat (cols df - col))") auto

declare print_cols.simps [simp del]

function head_rows :: "csvData_t \<Rightarrow> int \<Rightarrow> int \<Rightarrow> out_call list \<Rightarrow> out_call list option" where
  "head_rows df lines row out =
     (if row < lines
      then do {
        out1 \<leftarrow> print_cols head_cell df row 0 out;
        head_rows df lines (row + 1) (out1 @ [Puts '' ''])
      }
      else Some out)"
  by pat_completeness auto
termination
  by (relation "measure (\<lambda>(df, lines, row, out). nat (lines - row))") auto

declare head_rows.simps [simp del]

definition head :: "csvData_t \<Rightarrow> int \<Rightarrow> out_call list option" where
  "head df lines = do {
     out \<leftarrow> head_rows df lines 0 [PrintfD head_top lines];
     Some (out @ [PrintfS head_bottom])
   }"

function tail_rows :: "csvData_t \<Rightarrow> int \<Rightarrow> int \<Rightarrow> out_call list \<Rightarrow> out_call list option" where
  "tail_rows df lines row out = do {
     d \<leftarrow> c_sub (rows df) lines;
     bound \<leftarrow> c_sub d 1;
     if row > bound
     then do {
       out1 \<leftarrow> print_cols tail_cell df row 0 out;
       row1 \<leftarrow> c_sub row 1;
       tail_rows df lines row1 (out1 @ [Puts '' ''])
     }
     else Some out
   }"
  by pat_completeness auto
termination
  by (relation "measure (\<lambda>(df, lines, row, out). nat (row - (rows df - lines - 1)))")
     (auto simp: c_sub_def split: if_splits)

declare tail_rows.simps [simp del]

definition tail :: "csvData_t \<Rightarrow> int \<Rightarrow> out_call list option" where
  "tail df lines = do {
     row \<leftarrow> c_sub (rows df) 1;
     out \<leftarrow> tail_rows df lines row [PrintfD tail_top lines];
     Some (out @ [PrintfS tail_bottom])
   }"

text \<open>
  The calls that print row \<open>r\<close> of the table: one \<open>printf\<close> for each value of the
  row, from column 0 up, and the \<open>puts\<close> that ends the line.
\<close>

definition row_calls :: "string \<Rightarrow> csvData_t \<Rightarrow> nat \<Rightarrow> out_call list" where
  "row_calls fmt df r = map (PrintfF fmt) (dataFrame df ! r) @ [Puts '' '']"

subsection \<open>randomDataStream\<close>

text \<open>
  The generator of the C library is the sequence \<open>draws\<close> of the values that the
  successive calls of \<open>rand\<close> return once \<open>srand(time(NULL))\<close> has chosen the seed;
  \<open>rand\<close> never returns a negative value. The position \<open>k\<close> in the sequence is the
  state of the generator.
\<close>

function randomDataStream_loop ::
  "csvData_t \<Rightarrow> int \<Rightarrow> (nat \<Rightarrow> nat) \<Rightarrow> nat \<Rightarrow> int \<Rightarrow> fvec \<Rightarrow> fvec option" where
  "randomDataStream_loop df numOfData draws k num stream =
     (if num < numOfData
      then do {
        xIndex \<leftarrow> c_mod (int (draws k)) (rows df);
        yIndex \<leftarrow> c_mod (int (draws (k + 1))) (cols df);
        v \<leftarrow> cell df xIndex yIndex;
        stream1 \<leftarrow> poke stream num v;
        randomDataStream_loop df numOfData draws (k + 2) (num + 1) stream1
      }
      else Some stream)"
  by pat_completeness auto
termination
  by (relation "measure (\<lambda>(df, numOfData, draws, k, num, stream). nat (numOfData - num))") auto

declare randomDataStream_loop.simps [simp del]

definition randomDataStream :: "csvData_t \<Rightarrow> int \<Rightarrow> (nat \<Rightarrow> nat) \<Rightarrow> fvec option" where
  "randomDataStream df numOfData draws =
     randomDataStream_loop df numOfData draws 0 0 (malloc_floats numOfData)"

subsection \<open>createFloatVector\<close>

definition createFloatVector :: "int \<Rightarrow> fvec" where
  "createFloatVector len = malloc_floats len"


subsection \<open>mean\<close>

function mean_loop :: "csvData_t \<Rightarrow> int \<Rightarrow> int \<Rightarrow> cfloat \<Rightarrow> cfloat option" where
  "mean_loop df col row acc =
     (if row < rows df
      then do { v \<leftarrow> cell df row col; mean_loop df col (row + 1) (fadd acc v) }
      else Some acc)"
  by pat_completeness auto
termination
  by (relation "measure (\<lambda>(df, col, row, acc). nat (rows df - row))") auto

declare mean_loop.simps [simp del]

definition mean :: "csvData_t \<Rightarrow> int \<Rightarrow> cfloat option" where
  "mean df col = do {
     acc \<leftarrow> mean_loop df col 0 (Fin 0);
     fdiv acc (float_of_int (rows df))
   }"

text \<open>
  The arithmetic average of real numbers, and the same sum and quotient in \<open>float\<close>:
  the values are added from the first one on, each sum rounded, and the sum is divided
  by the rounded number of values.
\<close>

definition average :: "real list \<Rightarrow> real" where
  "average xs = sum_list xs / real (length xs)"

definition float_sum :: "cfloat list \<Rightarrow> cfloat" where
  "float_sum xs = foldl fadd (Fin 0) xs"

definition float_average :: "cfloat list \<Rightarrow> cfloat" where
  "float_average xs = fquot (float_sum xs) (float_of_int (int (length xs)))"

subsection \<open>compareVectors\<close>

definition compareVectors :: "cfloat \<Rightarrow> cfloat \<Rightarrow> int" where
  "compareVectors a b = (if flt b a then 1 else 0) - (if flt a b then 1 else 0)"

subsection \<open>median\<close>

text \<open>
  \<open>qsort\<close> is the C library's: it permutes the first \<open>nmemb\<close> elements of the array
  into ascending order of the comparison function. The order in which it compares is
  not fixed by the C standard; the model inserts the elements one by one.
  \<open>free(sortedFeature)\<close> at the end of \<open>median\<close> has no counterpart: the scratch
  vector is a local value.
\<close>

fun insert_by :: "('a \<Rightarrow> 'a \<Rightarrow> int) \<Rightarrow> 'a \<Rightarrow> 'a list \<Rightarrow> 'a list" where
  "insert_by compar x [] = [x]"
| "insert_by compar x (y # ys) =
     (if compar x y \<le> 0 then x # y # ys else y # insert_by compar x ys)"

definition sort_by :: "('a \<Rightarrow> 'a \<Rightarrow> int) \<Rightarrow> 'a list \<Rightarrow> 'a list" where
  "sort_by compar xs = foldr (insert_by compar) xs []"

definition qsort :: "fvec \<Rightarrow> int \<Rightarrow> (cfloat \<Rightarrow> cfloat \<Rightarrow> int) \<Rightarrow> fvec option" where
  "qsort base nmemb compar =
     (if 0 \<le> nmemb \<and> nmemb \<le> int (length base)
      then do {
        xs \<leftarrow> those (take (nat nmemb) base);
        Some (map Some (sort_by compar xs) @ drop (nat nmemb) base)
      }
      else None)"

function median_copy :: "csvData_t \<Rightarrow> int \<Rightarrow> int \<Rightarrow> fvec \<Rightarrow> fvec option" where
  "median_copy df col index sortedFeature =
     (if index < rows df
      then do {
        v \<leftarrow> cell df index col;
        sortedFeature1 \<leftarrow> poke sortedFeature index v;
        median_copy df col (index + 1) sortedFeature1
      }
      else Some sortedFeature)"
  by pat_completeness auto
termination
  by (relation "measure (\<lambda>(df, col, index, sortedFeature). nat (rows df - index))") auto

declare median_copy.simps [simp del]

definition median :: "csvData_t \<Rightarrow> int \<Rightarrow> cfloat option" where
  "median df col = do {
     sortedFeature \<leftarrow> median_copy df col 0 (createFloatVector (rows df));
     sortedFeature \<leftarrow> qsort sortedFeature (rows df) compareVectors;
     r \<leftarrow> c_mod (rows df) 2;
     medianVal \<leftarrow>
       (if r = 1
        then do {
          i \<leftarrow> c_sub (rows df) 1;
          m \<leftarrow> c_div i 2;
          cell df m col
        }
        else do {
          m \<leftarrow> c_div (rows df) 2;
          a \<leftarrow> cell df m col;
          m1 \<leftarrow> c_sub m 1;
          b \<leftarrow> cell df m1 col;
          fdiv (fadd a b) (Fin 2)
        });
     Some medianVal
   }"

text \<open>
  The median as the specification words it: the middle element of the column's values
  in ascending order when their number is odd, the average of the two central ones when
  it is even.
\<close>

definition median_of_sorted :: "real list \<Rightarrow> real" where
  "median_of_sorted xs =
     (let s = sort xs; n = length xs
      in if odd n then s ! ((n - 1) div 2) else (s ! (n div 2 - 1) + s ! (n div 2)) / 2)"

subsection \<open>standardDeviation\<close>

function standardDeviation_loop ::
  "csvData_t \<Rightarrow> int \<Rightarrow> cfloat \<Rightarrow> int \<Rightarrow> cfloat \<Rightarrow> cfloat option" where
  "standardDeviation_loop df col meanVal row acc =
     (if row < rows df
      then do {
        v \<leftarrow> cell df row col;
        let distance = fsub v meanVal;
        standardDeviation_loop df col meanVal (row + 1) (fadd acc (fmul distance distance))
      }
      else Some acc)"
  by pat_completeness auto
termination
  by (relation "measure (\<lambda>(df, col, meanVal, row, acc). nat (rows df - row))") auto

declare standardDeviation_loop.simps [simp del]

definition standardDeviation :: "csvData_t \<Rightarrow> int \<Rightarrow> cfloat option" where
  "standardDeviation df col = do {
     meanVal \<leftarrow> mean df col;
     acc \<leftarrow> standardDeviation_loop df col meanVal 0 (Fin 0);
     fdiv acc (float_of_int (rows df))
   }"

text \<open>
  The population variance of real numbers, the average of the squared deviations from
  their mean, and the same computation in \<open>float\<close>.
\<close>

definition population_variance :: "real list \<Rightarrow> real" where
  "population_variance xs = average (map (\<lambda>x. (x - average xs)\<^sup>2) xs)"

definition float_square_distance :: "cfloat \<Rightarrow> cfloat \<Rightarrow> cfloat" where
  "float_square_distance m x = fmul (fsub x m) (fsub x m)"

definition float_variance :: "cfloat list \<Rightarrow> cfloat" where
  "float_variance xs = float_average (map (float_square_distance (float_average xs)) xs)"

subsection \<open>scaleToUnity\<close>




subsection \<open>scaleVector\<close>







section \<open>Properties\<close>

subsection \<open>Rounding\<close>

lemma round_even_near: "\<bar>of_int (round_even y) - y\<bar> \<le> 1 / 2"
  unfolding round_even_def Let_def by (auto; linarith)


lemma expo_from_below: "expo_from a e = e \<or> 2 powi (expo_from a e) \<le> a"
proof (induction a e rule: expo_from.induct)
  case (1 a e)
  show ?case
  proof (cases "e < 128 \<and> 2 powi (e + 1) \<le> a")
    case True
    then have s: "expo_from a e = expo_from a (e + 1)"
      by (subst expo_from.simps) simp
    from 1 True have "expo_from a (e + 1) = e + 1 \<or> 2 powi (expo_from a (e + 1)) \<le> a"
      by simp
    with True s show ?thesis
      by auto
  next
    case False
    then have "expo_from a e = e"
      by (subst expo_from.simps) auto
    then show ?thesis ..
  qed
qed


lemma ulp_pos: "0 < ulp x"
  by (simp add: ulp_def)

lemma ulp_le: "2 powi (- 149) \<le> \<bar>x\<bar> \<Longrightarrow> ulp x \<le> \<bar>x\<bar>"
proof -
  assume x: "2 powi (- 149) \<le> \<bar>x\<bar>"
  from expo_from_below [of "\<bar>x\<bar>" "- 126"]
  have "expo x = - 126 \<or> 2 powi (expo x) \<le> \<bar>x\<bar>"
    by (simp add: expo_def)
  then show ?thesis
  proof
    assume "expo x = - 126"
    with x show ?thesis
      by (simp add: ulp_def)
  next
    assume e: "2 powi (expo x) \<le> \<bar>x\<bar>"
    have "(2::real) powi (expo x - 23) \<le> 2 powi (expo x)"
      by (rule power_int_increasing) simp_all
    with e show ?thesis
      by (simp add: ulp_def)
  qed
qed


lemma round32_nonzero:
  assumes "2 powi (- 149) \<le> \<bar>x\<bar>"
  shows "round32 x \<noteq> Fin 0"
proof -
  define y where "y = x / ulp x"
  from assms have "ulp x \<le> \<bar>x\<bar>"
    by (rule ulp_le)
  with ulp_pos [of x] have y: "1 \<le> \<bar>y\<bar>"
    by (simp add: y_def field_simps)
  have "round_even y \<noteq> 0"
  proof
    assume "round_even y = 0"
    with round_even_near [of y] have "\<bar>y\<bar> \<le> 1 / 2"
      by simp
    with y show False
      by linarith
  qed
  with ulp_pos [of x] have "of_int (round_even y) * ulp x \<noteq> 0"
    by simp
  then show ?thesis
    by (simp add: round32_def Let_def y_def)
qed



lemma float_of_int_nonzero:
  assumes "1 \<le> i"
  shows "float_of_int i \<noteq> Fin 0"
proof -
  have "(2::real) powi (- 149) \<le> 1"
    by (simp add: power_int_def field_simps)
  also from assms have "1 \<le> \<bar>real_of_int i\<bar>"
    by simp
  finally show ?thesis
    unfolding float_of_int_def by (rule round32_nonzero)
qed

lemma is_float32_examples:
  "is_float32 0" "is_float32 1" "is_float32 (5 / 2)" "is_float32 (2 ^ 127)"
  "\<not> is_float32 (1 / 3)" "\<not> is_float32 16777217" "is_float32 (1 / 2 ^ 149)"
  by (simp_all add: is_float32_def round32_def ulp_def expo_def expo_from.simps
      round_even_def Let_def)

text \<open>The rules that evaluate the operations of \<open>float\<close> on given numbers.\<close>

lemmas float_eval =
  round32_def ulp_def expo_def expo_from.simps round_even_def Let_def fsub_def fdiv_def
  float_of_int_def

subsection \<open>Reading a well-formed table\<close>

lemma wf_table_length: "wf_table df \<Longrightarrow> length (dataFrame df) = nat (rows df)"
  unfolding wf_table_def by linarith

lemma wf_table_row_length:
  assumes "wf_table df" and "0 \<le> row" and "row < rows df"
  shows "int (length (dataFrame df ! nat row)) = cols df"
proof -
  from assms have "nat row < length (dataFrame df)"
    by (simp add: wf_table_length)
  moreover from assms have "\<forall>r \<in> set (dataFrame df). int (length r) = cols df"
    by (simp add: wf_table_def list_all_iff)
  ultimately show ?thesis
    using nth_mem by blast
qed

lemma cell_wf:
  assumes "wf_table df" and "0 \<le> row" and "row < rows df" and "0 \<le> col" and "col < cols df"
  shows "cell df row col = Some (column df col ! nat row)"
proof -
  from assms have len: "nat row < length (dataFrame df)"
    by (simp add: wf_table_length)
  from assms(1-3) have "int (length (dataFrame df ! nat row)) = cols df"
    by (rule wf_table_row_length)
  with assms len show ?thesis
    by (simp add: cell_def column_def)
qed

lemma length_column: "length (column df col) = length (dataFrame df)"
  by (simp add: column_def)

subsection \<open>mean\<close>

lemma mean_loop_sum:
  "wf_table df \<Longrightarrow> 0 \<le> col \<Longrightarrow> col < cols df \<Longrightarrow> 0 \<le> row \<Longrightarrow> row \<le> rows df \<Longrightarrow>
    mean_loop df col row s = Some (foldl fadd s (drop (nat row) (column df col)))"
proof (induction df col row s rule: mean_loop.induct)
  case (1 df col row acc)
  show ?case
  proof (cases "row < rows df")
    case True
    with "1.prems" have c: "cell df row col = Some (column df col ! nat row)"
      by (simp add: cell_wf)
    from True "1.prems" have lt: "nat row < length (column df col)"
      by (simp add: length_column wf_table_length)
    have d: "drop (nat row) (column df col)
               = column df col ! nat row # drop (nat (row + 1)) (column df col)"
      using lt "1.prems" by (simp add: Cons_nth_drop_Suc nat_add_distrib)
    from True "1.prems" have "mean_loop df col (row + 1) (fadd acc (column df col ! nat row))
        = Some (foldl fadd (fadd acc (column df col ! nat row))
            (drop (nat (row + 1)) (column df col)))"
      by (intro "1.IH" c) simp_all
    with True c d show ?thesis
      by (subst mean_loop.simps) simp
  next
    case False
    with "1.prems" have "drop (nat row) (column df col) = []"
      by (simp add: length_column wf_table_length)
    with False show ?thesis
      by (subst mean_loop.simps) simp
  qed
qed

lemma mean_float_average:
  assumes "wf_table df" and "0 \<le> col" and "col < cols df"
  shows "mean df col = Some (float_average (column df col))"
proof -
  from assms
  have "mean_loop df col 0 (Fin 0) = Some (foldl fadd (Fin 0) (drop (nat 0) (column df col)))"
    by (intro mean_loop_sum) (simp_all add: wf_table_def)
  moreover from assms have "float_of_int (rows df) \<noteq> Fin 0"
    by (intro float_of_int_nonzero) (simp add: wf_table_def)
  moreover from assms have "int (length (column df col)) = rows df"
    by (simp add: length_column wf_table_def)
  ultimately show ?thesis
    by (simp add: mean_def fdiv_def float_average_def float_sum_def)
qed

text \<open>
  C6, as stated: \<open>mean\<close> equals the sum of the values of the column divided by the
  number of rows, the arithmetic average. For the column \<open>2 ^ 24\<close>, 1, 1 the average is
  5592406 and \<open>mean\<close> returns 5592405.5: the sum \<open>2 ^ 24 + 1\<close> is rounded to \<open>2 ^ 24\<close>,
  twice.
\<close>

theorem mean_exact_average_counterexample:
  "mean \<lparr>rows = 3, cols = 1, dataFrame = [[Fin 16777216], [Fin 1], [Fin 1]]\<rparr> 0
     = Some (Fin (11184811 / 2)) \<and>
   average [16777216, 1, 1] = 5592406 \<and>
   Fin (11184811 / 2) \<noteq> Fin (average [16777216, 1, 1])"
proof -
  have "mean \<lparr>rows = 3, cols = 1, dataFrame = [[Fin 16777216], [Fin 1], [Fin 1]]\<rparr> 0
      = Some (Fin (11184811 / 2))"
    by (simp add: mean_def mean_loop.simps cell_def float_eval)
  moreover have "average [16777216, 1, 1] = 5592406"
    by (simp add: average_def)
  ultimately show ?thesis
    by simp
qed

text \<open>
  C6, amended: for a table with at least one row and a valid column index, \<open>mean\<close>
  returns the sum of the values of the column divided by the number of rows, both taken
  in \<open>float\<close>: the values are added from row 0 down, each sum rounded to the nearest
  \<open>float\<close>, and the quotient by \<open>(float)rows\<close> is rounded again.
\<close>

theorem mean_is_float_average:
  assumes "wf_table df" and "0 \<le> col" and "col < cols df"
  shows "mean df col
    = Some (fquot (foldl fadd (Fin 0) (column df col)) (float_of_int (rows df)))"
proof -
  from assms have "int (length (column df col)) = rows df"
    by (simp add: length_column wf_table_def)
  with mean_float_average [OF assms] show ?thesis
    by (simp add: float_average_def float_sum_def)
qed

theorem mean_is_float_average_witness:
  "wf_table \<lparr>rows = 4, cols = 1, dataFrame = [[Fin 1], [Fin 2], [Fin 3], [Fin 4]]\<rparr> \<and>
   mean \<lparr>rows = 4, cols = 1, dataFrame = [[Fin 1], [Fin 2], [Fin 3], [Fin 4]]\<rparr> 0
     = Some (Fin (5 / 2))"
  using mean_is_float_average
    [of "\<lparr>rows = 4, cols = 1, dataFrame = [[Fin 1], [Fin 2], [Fin 3], [Fin 4]]\<rparr>" 0]
  by (simp add: wf_table_def INT_MAX_def column_def float_eval)

subsection \<open>standardDeviation\<close>

lemma standardDeviation_loop_sum:
  "wf_table df \<Longrightarrow> 0 \<le> col \<Longrightarrow> col < cols df \<Longrightarrow> 0 \<le> row \<Longrightarrow> row \<le> rows df \<Longrightarrow>
    standardDeviation_loop df col m row s =
      Some (foldl fadd s (map (float_square_distance m) (drop (nat row) (column df col))))"
proof (induction df col m row s rule: standardDeviation_loop.induct)
  case (1 df col meanVal row acc)
  let ?v = "column df col ! nat row"
  let ?acc = "fadd acc (fmul (fsub ?v meanVal) (fsub ?v meanVal))"
  show ?case
  proof (cases "row < rows df")
    case True
    with "1.prems" have c: "cell df row col = Some ?v"
      by (simp add: cell_wf)
    from True "1.prems" have lt: "nat row < length (column df col)"
      by (simp add: length_column wf_table_length)
    have d: "drop (nat row) (column df col) = ?v # drop (nat (row + 1)) (column df col)"
      using lt "1.prems" by (simp add: Cons_nth_drop_Suc nat_add_distrib)
    from True "1.prems"
    have "standardDeviation_loop df col meanVal (row + 1) ?acc
        = Some (foldl fadd ?acc
            (map (float_square_distance meanVal) (drop (nat (row + 1)) (column df col))))"
      by (intro "1.IH" [OF True c refl]) simp_all
    with True c d show ?thesis
      by (subst standardDeviation_loop.simps) (simp add: Let_def float_square_distance_def)
  next
    case False
    with "1.prems" have "drop (nat row) (column df col) = []"
      by (simp add: length_column wf_table_length)
    with False show ?thesis
      by (subst standardDeviation_loop.simps) simp
  qed
qed

text \<open>
  C2, as stated: \<open>standardDeviation\<close> returns the population variance of the column.
  For the column 1, 2, 4 the population variance is 14/9, which is no \<open>float\<close>, and
  \<open>standardDeviation\<close> returns 13048947/8388608; for the column \<open>2 ^ 24\<close>, \<open>2 ^ 24 + 2\<close>,
  \<open>2 ^ 24\<close>, \<open>2 ^ 24 + 2\<close> the population variance is 1 and \<open>standardDeviation\<close>
  returns 2.
\<close>

theorem standardDeviation_exact_variance_counterexample:
  "standardDeviation \<lparr>rows = 3, cols = 1, dataFrame = [[Fin 1], [Fin 2], [Fin 4]]\<rparr> 0
     = Some (Fin (13048947 / 8388608)) \<and>
   population_variance [1, 2, 4] = 14 / 9 \<and>
   Fin (13048947 / 8388608) \<noteq> Fin (population_variance [1, 2, 4]) \<and>
   standardDeviation \<lparr>rows = 4, cols = 1, dataFrame =
       [[Fin 16777216], [Fin 16777218], [Fin 16777216], [Fin 16777218]]\<rparr> 0
     = Some (Fin 2) \<and>
   population_variance [16777216, 16777218, 16777216, 16777218] = 1"
proof -
  note code = standardDeviation_def standardDeviation_loop.simps mean_def mean_loop.simps
    cell_def float_eval
  have "standardDeviation \<lparr>rows = 3, cols = 1, dataFrame = [[Fin 1], [Fin 2], [Fin 4]]\<rparr> 0
      = Some (Fin (13048947 / 8388608))"
    by (simp add: code)
  moreover have "population_variance [1, 2, 4] = 14 / 9"
    by (simp add: population_variance_def average_def power2_eq_square)
  moreover
  have "standardDeviation \<lparr>rows = 4, cols = 1, dataFrame =
       [[Fin 16777216], [Fin 16777218], [Fin 16777216], [Fin 16777218]]\<rparr> 0 = Some (Fin 2)"
    by (simp add: code)
  moreover have "population_variance [16777216, 16777218, 16777216, 16777218] = 1"
    by (simp add: population_variance_def average_def power2_eq_square)
  ultimately show ?thesis
    by simp
qed

text \<open>
  C2, amended: for a table with at least one row and a valid column index,
  \<open>standardDeviation\<close> returns the population variance of the column taken in \<open>float\<close>:
  the average, with every sum, difference, product and quotient rounded to the nearest
  \<open>float\<close>, of the squared deviations from the column's \<open>float\<close> mean; it takes no
  square root of it.
\<close>

theorem standardDeviation_is_float_variance:
  assumes "wf_table df" and "0 \<le> col" and "col < cols df"
  shows "standardDeviation df col = Some (float_variance (column df col))"
proof -
  let ?m = "float_average (column df col)"
  from assms have m: "mean df col = Some ?m"
    by (rule mean_float_average)
  from assms have "standardDeviation_loop df col ?m 0 (Fin 0)
      = Some (foldl fadd (Fin 0)
          (map (float_square_distance ?m) (drop (nat 0) (column df col))))"
    by (intro standardDeviation_loop_sum) (simp_all add: wf_table_def)
  then have l: "standardDeviation_loop df col ?m 0 (Fin 0)
      = Some (float_sum (map (float_square_distance ?m) (column df col)))"
    by (simp add: float_sum_def)
  from assms have n: "float_of_int (rows df) \<noteq> Fin 0"
    by (intro float_of_int_nonzero) (simp add: wf_table_def)
  from assms have r: "int (length (column df col)) = rows df"
    by (simp add: length_column wf_table_def)
  show ?thesis
    using n by (simp add: standardDeviation_def m l fdiv_def float_variance_def
        float_average_def [of "map f xs" for f xs] r)
qed

theorem standardDeviation_is_float_variance_witness:
  "wf_table \<lparr>rows = 2, cols = 1, dataFrame = [[Fin 0], [Fin 4]]\<rparr> \<and>
   standardDeviation \<lparr>rows = 2, cols = 1, dataFrame = [[Fin 0], [Fin 4]]\<rparr> 0 = Some (Fin 4) \<and>
   standardDeviation \<lparr>rows = 2, cols = 1, dataFrame = [[Fin 0], [Fin 4]]\<rparr> 0
     \<noteq> Some (Fin (sqrt 4))"
  using standardDeviation_is_float_variance
    [of "\<lparr>rows = 2, cols = 1, dataFrame = [[Fin 0], [Fin 4]]\<rparr>" 0]
  by (simp add: wf_table_def INT_MAX_def column_def float_variance_def float_average_def
      float_sum_def float_square_distance_def float_eval)

subsection \<open>Vectors in memory\<close>

lemma take_Suc_update:
  "n < length out \<Longrightarrow> take (Suc n) (out[n := y]) = take n out @ [y]"
  by (simp add: take_Suc_conv_app_nth)


lemma poke_Some: "0 \<le> i \<Longrightarrow> i < int (length v) \<Longrightarrow> poke v i x = Some (v[nat i := Some x])"
  by (simp add: poke_def)

lemma floats_map_Some: "floats xs = map Some (map Fin xs)"
  by (simp add: floats_def)



subsection \<open>scaleToUnity and scaleVector\<close>
















subsection \<open>scaleVector with a collapsed target range\<close>





subsection \<open>compareVectors\<close>

text \<open>
  C9: on finite values \<open>compareVectors\<close> returns exactly -1 when the first value is
  below the second, exactly 0 when they are equal and exactly 1 when it is above, and
  swapping the arguments negates the result.
\<close>

theorem compareVectors_sign:
  "(a < b \<longrightarrow> compareVectors (Fin a) (Fin b) = - 1) \<and>
   (a = b \<longrightarrow> compareVectors (Fin a) (Fin b) = 0) \<and>
   (a > b \<longrightarrow> compareVectors (Fin a) (Fin b) = 1) \<and>
   compareVectors (Fin a) (Fin b) = - compareVectors (Fin b) (Fin a)"
  by (simp add: compareVectors_def)

theorem compareVectors_sign_witness:
  "compareVectors (Fin 1) (Fin 2) = - 1 \<and> compareVectors (Fin 2) (Fin 2) = 0 \<and>
   compareVectors (Fin 3) (Fin 2) = 1 \<and>
   compareVectors (Fin 1) (Fin 2) = - compareVectors (Fin 2) (Fin 1)"
  using compareVectors_sign [of 1 2] compareVectors_sign [of 2 2] compareVectors_sign [of 3 2]
  by simp

subsection \<open>median\<close>

lemma those_map_Some: "those (map Some xs) = Some xs"
  by (induction xs) simp_all

lemma compareVectors_le: "compareVectors (Fin x) (Fin y) \<le> 0 \<longleftrightarrow> x \<le> y"
  by (simp add: compareVectors_def)

lemma insert_by_compareVectors:
  "insert_by compareVectors (Fin x) (map Fin ys) = map Fin (insort x ys)"
  by (induction ys) (simp_all add: compareVectors_le)

lemma sort_by_compareVectors: "sort_by compareVectors (map Fin xs) = map Fin (sort xs)"
proof (induction xs)
  case Nil
  show ?case
    by (simp add: sort_by_def)
next
  case (Cons x xs)
  have "sort_by compareVectors (map Fin (x # xs))
      = insert_by compareVectors (Fin x) (sort_by compareVectors (map Fin xs))"
    by (simp add: sort_by_def)
  with Cons show ?case
    by (simp add: insert_by_compareVectors)
qed

lemma qsort_all:
  "qsort (map Some ys) (int (length ys)) compar = Some (map Some (sort_by compar ys))"
  by (simp add: qsort_def those_map_Some)

lemma qsort_sorts:
  "qsort (floats xs) (int (length xs)) compareVectors = Some (floats (sort xs))"
  using qsort_all [of "map Fin xs" compareVectors]
  by (simp only: floats_map_Some sort_by_compareVectors length_map)

lemma median_copy_column:
  "wf_table df \<Longrightarrow> 0 \<le> col \<Longrightarrow> col < cols df \<Longrightarrow> 0 \<le> index \<Longrightarrow> index \<le> rows df \<Longrightarrow>
   length buf = nat (rows df) \<Longrightarrow>
   median_copy df col index buf
     = Some (take (nat index) buf @ map Some (drop (nat index) (column df col)))"
proof (induction df col index buf rule: median_copy.induct)
  case (1 df col index buf)
  let ?v = "column df col ! nat index"
  show ?case
  proof (cases "index < rows df")
    case True
    with "1.prems" have c: "cell df index col = Some ?v"
      by (simp add: cell_wf)
    from True "1.prems" have n: "nat index < length (column df col)" "nat index < length buf"
      by (simp_all add: length_column wf_table_length)
    from True "1.prems" have q: "poke buf index ?v = Some (buf[nat index := Some ?v])"
      by (simp add: poke_Some)
    have s: "nat (index + 1) = Suc (nat index)"
      using "1.prems" by simp
    from True "1.prems"
    have "median_copy df col (index + 1) (buf[nat index := Some ?v])
        = Some (take (nat (index + 1)) (buf[nat index := Some ?v])
            @ map Some (drop (nat (index + 1)) (column df col)))"
      by (intro "1.IH" [OF True c q]) simp_all
    also have "\<dots> = Some (take (nat index) buf @ map Some (drop (nat index) (column df col)))"
      using n by (simp add: s take_Suc_update flip: Cons_nth_drop_Suc)
    finally show ?thesis
      using True c q by (subst median_copy.simps) simp
  next
    case False
    with "1.prems" show ?thesis
      by (subst median_copy.simps) (simp add: length_column wf_table_length)
  qed
qed

lemma median_scratch_copy:
  assumes "wf_table df" and "0 \<le> col" and "col < cols df"
  shows "median_copy df col 0 (createFloatVector (rows df)) = Some (map Some (column df col))"
proof -
  from assms have "median_copy df col 0 (createFloatVector (rows df))
      = Some (take (nat 0) (createFloatVector (rows df))
           @ map Some (drop (nat 0) (column df col)))"
    by (intro median_copy_column)
       (simp_all add: wf_table_def createFloatVector_def malloc_floats_def)
  then show ?thesis
    by simp
qed

lemma median_scratch_sorted:
  assumes "wf_table df" and "0 \<le> col" and "col < cols df" and "column df col = map Fin xs"
  shows "median_copy df col 0 (createFloatVector (rows df))
             \<bind> (\<lambda>sortedFeature. qsort sortedFeature (rows df) compareVectors)
         = Some (floats (sort xs))"
proof -
  from assms have "rows df = int (length xs)"
    using length_column [of df col] by (simp add: wf_table_def)
  with median_scratch_copy [OF assms(1-3)] assms(4) qsort_sorts [of xs] show ?thesis
    by (simp add: floats_map_Some)
qed

lemma qsort_column:
  assumes "wf_table df"
  shows "\<exists>sorted. qsort (map Some (column df col)) (rows df) compareVectors = Some sorted"
proof -
  from assms have "rows df = int (length (column df col))"
    by (simp add: length_column wf_table_def)
  with qsort_all [of "column df col" compareVectors] show ?thesis
    by simp
qed

lemma median_reads_table:
  assumes "wf_table df" and "0 \<le> col" and "col < cols df"
  shows "median df col =
     Some (if rows df mod 2 = 1 then column df col ! nat ((rows df - 1) div 2)
           else fquot (fadd (column df col ! nat (rows df div 2))
                   (column df col ! nat (rows df div 2 - 1))) (Fin 2))"
proof -
  note s = median_scratch_copy [OF assms]
  from qsort_column [OF assms(1), of col] obtain sorted
    where q: "qsort (map Some (column df col)) (rows df) compareVectors = Some sorted" ..
  from assms have r: "1 \<le> rows df" "rows df \<le> INT_MAX"
    by (simp_all add: wf_table_def)
  then have m: "c_mod (rows df) 2 = Some (rows df mod 2)"
    by (simp add: c_mod_def INT_MIN_def)
  show ?thesis
  proof (cases "rows df mod 2 = 1")
    case True
    from r have "c_sub (rows df) 1 = Some (rows df - 1)"
      by (simp add: c_sub_def in_int_def INT_MIN_def INT_MAX_def)
    moreover from r have "c_div (rows df - 1) 2 = Some ((rows df - 1) div 2)"
      by (simp add: c_div_def INT_MIN_def sgn_if)
    moreover from r assms
    have "cell df ((rows df - 1) div 2) col = Some (column df col ! nat ((rows df - 1) div 2))"
      by (intro cell_wf) simp_all
    ultimately show ?thesis
      using s q True m by (simp add: median_def)
  next
    case False
    with r have r2: "2 \<le> rows df"
      by presburger
    from r2 have "c_div (rows df) 2 = Some (rows df div 2)"
      by (simp add: c_div_def INT_MIN_def sgn_if)
    moreover from r r2 have "c_sub (rows df div 2) 1 = Some (rows df div 2 - 1)"
      unfolding c_sub_def in_int_def INT_MIN_def INT_MAX_def by (simp, linarith)
    moreover from r2 assms
    have "cell df (rows df div 2) col = Some (column df col ! nat (rows df div 2))"
      by (intro cell_wf) simp_all
    moreover from r2 assms
    have "cell df (rows df div 2 - 1) col = Some (column df col ! nat (rows df div 2 - 1))"
      by (intro cell_wf) simp_all
    ultimately show ?thesis
      using s q False m by (simp add: median_def fdiv_def)
  qed
qed

text \<open>
  C1: \<open>median\<close> is to return the middle element, or the average of the two central
  elements, of the column's values in ascending order. The function sorts a copy of the
  column and then reads the middle position of the table itself: for the column 5, 1, 3
  it returns 1 where the median is 3, and for 5, 1, 3, 7 it returns 2 where the median
  is 4.
\<close>

theorem median_reads_unsorted_table:
  "median \<lparr>rows = 3, cols = 1, dataFrame = [[Fin 5], [Fin 1], [Fin 3]]\<rparr> 0 = Some (Fin 1) \<and>
   column \<lparr>rows = 3, cols = 1, dataFrame = [[Fin 5], [Fin 1], [Fin 3]]\<rparr> 0 = map Fin [5, 1, 3] \<and>
   median_of_sorted [5, 1, 3] = 3 \<and>
   median \<lparr>rows = 4, cols = 1, dataFrame = [[Fin 5], [Fin 1], [Fin 3], [Fin 7]]\<rparr> 0
     = Some (Fin 2) \<and>
   column \<lparr>rows = 4, cols = 1, dataFrame = [[Fin 5], [Fin 1], [Fin 3], [Fin 7]]\<rparr> 0
     = map Fin [5, 1, 3, 7] \<and>
   median_of_sorted [5, 1, 3, 7] = 4"
proof -
  note code = median_def median_copy.simps createFloatVector_def malloc_floats_def
    cell_def poke_def qsort_def sort_by_def compareVectors_def c_mod_def c_div_def c_sub_def
    in_int_def INT_MIN_def INT_MAX_def float_eval eval_nat_numeral
  note spec = median_of_sorted_def column_def Let_def
  have "median \<lparr>rows = 3, cols = 1, dataFrame = [[Fin 5], [Fin 1], [Fin 3]]\<rparr> 0 = Some (Fin 1)"
    by (simp add: code)
  moreover
  have "median_of_sorted [5, 1, 3] = 3"
    by (simp add: spec)
  moreover
  have "median \<lparr>rows = 4, cols = 1, dataFrame = [[Fin 5], [Fin 1], [Fin 3], [Fin 7]]\<rparr> 0
      = Some (Fin 2)"
    by (simp add: code)
  moreover
  have "median_of_sorted [5, 1, 3, 7] = 4"
    by (simp add: spec)
  ultimately show ?thesis
    by (simp add: column_def)
qed

subsection \<open>randomDataStream\<close>

lemma c_mod_nonneg: "0 \<le> a \<Longrightarrow> 0 < b \<Longrightarrow> c_mod a b = Some (a mod b)"
  by (simp add: c_mod_def INT_MIN_def sgn_if)

lemma cell_in_table:
  assumes "cell df row col = Some v"
  shows "v \<in> set (concat (dataFrame df))"
proof -
  from assms have r: "nat row < length (dataFrame df)"
    and c: "nat col < length (dataFrame df ! nat row)"
    and v: "v = dataFrame df ! nat row ! nat col"
    by (auto simp: cell_def split: if_splits)
  from r have "dataFrame df ! nat row \<in> set (dataFrame df)"
    by (rule nth_mem)
  moreover from c v have "v \<in> set (dataFrame df ! nat row)"
    by simp
  ultimately show ?thesis
    by auto
qed

lemma randomDataStream_loop_cells:
  "wf_table df \<Longrightarrow> 0 \<le> num \<Longrightarrow> num \<le> numOfData \<Longrightarrow> length stream = nat numOfData \<Longrightarrow>
   set (take (nat num) stream) \<subseteq> Some ` set (concat (dataFrame df)) \<Longrightarrow>
   \<exists>out. randomDataStream_loop df numOfData draws k num stream = Some out \<and>
         length out = nat numOfData \<and> set out \<subseteq> Some ` set (concat (dataFrame df))"
proof (induction df numOfData draws k num stream rule: randomDataStream_loop.induct)
  case (1 df numOfData draws k num stream)
  let ?x = "int (draws k) mod rows df"
  let ?y = "int (draws (k + 1)) mod cols df"
  let ?v = "column df ?y ! nat ?x"
  show ?case
  proof (cases "num < numOfData")
    case True
    from "1.prems" have pos: "0 < rows df" "0 < cols df"
      by (simp_all add: wf_table_def)
    then have x: "c_mod (int (draws k)) (rows df) = Some ?x"
      and y: "c_mod (int (draws (k + 1))) (cols df) = Some ?y"
      by (simp_all add: c_mod_nonneg)
    from pos "1.prems" have c: "cell df ?x ?y = Some ?v"
      by (intro cell_wf) simp_all
    from True "1.prems" have q: "poke stream num ?v = Some (stream[nat num := Some ?v])"
      by (simp add: poke_Some)
    from True "1.prems" have n: "nat num < length stream"
      by simp
    have s: "nat (num + 1) = Suc (nat num)"
      using "1.prems" by simp
    from c have "Some ?v \<in> Some ` set (concat (dataFrame df))"
      by (intro imageI cell_in_table)
    with "1.prems" n
    have "set (take (nat (num + 1)) (stream[nat num := Some ?v]))
        \<subseteq> Some ` set (concat (dataFrame df))"
      by (simp add: s take_Suc_update)
    with True "1.prems"
    have "\<exists>out. randomDataStream_loop df numOfData draws (k + 2) (num + 1)
               (stream[nat num := Some ?v]) = Some out \<and>
           length out = nat numOfData \<and> set out \<subseteq> Some ` set (concat (dataFrame df))"
      by (intro "1.IH" [OF True x y c q]) simp_all
    with True x y c q show ?thesis
      by (subst randomDataStream_loop.simps) simp
  next
    case False
    with "1.prems" show ?thesis
      by (subst randomDataStream_loop.simps) simp
  qed
qed

text \<open>
  C7: for a table with at least one row and one column, a count \<open>n\<close> that is not
  negative and any sequence of draws, \<open>randomDataStream\<close> returns a vector of exactly
  \<open>n\<close> elements, each of them the value of a cell of the table.
\<close>

theorem randomDataStream_samples_cells:
  assumes "wf_table df" and "0 \<le> numOfData"
  shows "\<exists>stream. randomDataStream df numOfData draws = Some stream \<and>
           int (length stream) = numOfData \<and>
           set stream \<subseteq> Some ` set (concat (dataFrame df))"
proof -
  from assms
  have "\<exists>out. randomDataStream_loop df numOfData draws 0 0 (malloc_floats numOfData) = Some out \<and>
          length out = nat numOfData \<and> set out \<subseteq> Some ` set (concat (dataFrame df))"
    by (intro randomDataStream_loop_cells) (simp_all add: malloc_floats_def)
  with assms show ?thesis
    by (auto simp: randomDataStream_def)
qed

theorem randomDataStream_samples_cells_witness:
  "wf_table \<lparr>rows = 2, cols = 2, dataFrame = [[Fin 1, Fin 2], [Fin 3, Fin 4]]\<rparr> \<and>
   (\<exists>stream. randomDataStream \<lparr>rows = 2, cols = 2, dataFrame = [[Fin 1, Fin 2], [Fin 3, Fin 4]]\<rparr> 3
        (\<lambda>k. [3, 0, 2, 5, 1, 1] ! k) = Some stream \<and>
      int (length stream) = 3 \<and> set stream \<subseteq> {Some (Fin 1), Some (Fin 2), Some (Fin 3), Some (Fin 4)})"
  using randomDataStream_samples_cells
    [of "\<lparr>rows = 2, cols = 2, dataFrame = [[Fin 1, Fin 2], [Fin 3, Fin 4]]\<rparr>" 3 "\<lambda>k. [3, 0, 2, 5, 1, 1] ! k"]
  by (simp add: wf_table_def INT_MAX_def)

lemma randomDataStream_example:
  "randomDataStream \<lparr>rows = 2, cols = 2, dataFrame = [[Fin 1, Fin 2], [Fin 3, Fin 4]]\<rparr> 3
        (\<lambda>k. [3, 0, 2, 5, 1, 1] ! k) = Some [Some (Fin 3), Some (Fin 2), Some (Fin 4)]"
  by (simp add: randomDataStream_def randomDataStream_loop.simps malloc_floats_def c_mod_def
      cell_def poke_def INT_MIN_def eval_nat_numeral)

subsection \<open>head and tail\<close>

lemma print_cols_row:
  "wf_table df \<Longrightarrow> 0 \<le> row \<Longrightarrow> row < rows df \<Longrightarrow> 0 \<le> col \<Longrightarrow> col \<le> cols df \<Longrightarrow>
   print_cols fmt df row col out
     = Some (out @ map (PrintfF fmt) (drop (nat col) (dataFrame df ! nat row)))"
proof (induction fmt df row col out rule: print_cols.induct)
  case (1 fmt df row col out)
  let ?r = "dataFrame df ! nat row"
  from "1.prems" have len: "int (length ?r) = cols df"
    by (intro wf_table_row_length)
  show ?case
  proof (cases "col < cols df")
    case True
    with "1.prems" have c: "cell df row col = Some (?r ! nat col)"
      by (simp add: cell_wf column_def wf_table_length)
    from True "1.prems" len have lt: "nat col < length ?r"
      by simp
    have d: "drop (nat col) ?r = ?r ! nat col # drop (nat (col + 1)) ?r"
      using lt "1.prems" by (simp add: Cons_nth_drop_Suc nat_add_distrib)
    from True "1.prems"
    have "print_cols fmt df row (col + 1) (out @ [PrintfF fmt (?r ! nat col)])
        = Some ((out @ [PrintfF fmt (?r ! nat col)])
            @ map (PrintfF fmt) (drop (nat (col + 1)) ?r))"
      by (intro "1.IH" [OF True c]) simp_all
    with True c d show ?thesis
      by (subst print_cols.simps) simp
  next
    case False
    with "1.prems" len have "drop (nat col) ?r = []"
      by simp
    with False show ?thesis
      by (subst print_cols.simps) simp
  qed
qed

lemma print_cols_all:
  assumes "wf_table df" and "0 \<le> row" and "row < rows df"
  shows "print_cols fmt df row 0 out = Some (out @ map (PrintfF fmt) (dataFrame df ! nat row))"
  using assms print_cols_row [of df row 0 fmt out] by (simp add: wf_table_def)

lemma head_rows_calls:
  "wf_table df \<Longrightarrow> 0 \<le> row \<Longrightarrow> lines \<le> rows df \<Longrightarrow>
   head_rows df lines row out
     = Some (out @ concat (map (row_calls head_cell df) [nat row..<nat lines]))"
proof (induction df lines row out rule: head_rows.induct)
  case (1 df lines row out)
  let ?out1 = "out @ map (PrintfF head_cell) (dataFrame df ! nat row)"
  show ?case
  proof (cases "row < lines")
    case True
    with "1.prems" have p: "print_cols head_cell df row 0 out = Some ?out1"
      by (intro print_cols_all) simp_all
    from True "1.prems" have u: "[nat row..<nat lines] = nat row # [nat (row + 1)..<nat lines]"
      by (simp add: upt_conv_Cons nat_add_distrib)
    from "1.prems"
    have "head_rows df lines (row + 1) (?out1 @ [Puts '' ''])
        = Some ((?out1 @ [Puts '' ''])
            @ concat (map (row_calls head_cell df) [nat (row + 1)..<nat lines]))"
      by (intro "1.IH" [OF True p]) simp_all
    with True p show ?thesis
      by (subst head_rows.simps) (simp add: u row_calls_def)
  next
    case False
    then show ?thesis
      by (subst head_rows.simps) simp
  qed
qed

lemma tail_rows_calls:
  "wf_table df \<Longrightarrow> 0 \<le> lines \<Longrightarrow> lines \<le> rows df \<Longrightarrow> rows df - lines - 1 \<le> row \<Longrightarrow>
   row < rows df \<Longrightarrow>
   tail_rows df lines row out
     = Some (out @ concat (map (row_calls tail_cell df)
         (rev [nat (rows df - lines)..<nat (row + 1)])))"
proof (induction df lines row out rule: tail_rows.induct)
  case (1 df lines row out)
  let ?out1 = "out @ map (PrintfF tail_cell) (dataFrame df ! nat row)"
  from "1.prems" have r: "rows df \<le> INT_MAX"
    by (simp add: wf_table_def)
  with "1.prems" have d: "c_sub (rows df) lines = Some (rows df - lines)"
    by (simp add: c_sub_def in_int_def INT_MIN_def INT_MAX_def)
  from r "1.prems" have b: "c_sub (rows df - lines) 1 = Some (rows df - lines - 1)"
    by (simp add: c_sub_def in_int_def INT_MIN_def INT_MAX_def)
  show ?case
  proof (cases "row > rows df - lines - 1")
    case True
    with "1.prems" have row0: "0 \<le> row"
      by simp
    with "1.prems" have p: "print_cols tail_cell df row 0 out = Some ?out1"
      by (intro print_cols_all) simp_all
    from row0 r "1.prems" have m: "c_sub row 1 = Some (row - 1)"
      by (simp add: c_sub_def in_int_def INT_MIN_def INT_MAX_def)
    from True "1.prems" row0
    have u: "rev [nat (rows df - lines)..<nat (row + 1)]
        = nat row # rev [nat (rows df - lines)..<nat (row - 1 + 1)]"
      by (simp add: nat_add_distrib)
    from True "1.prems"
    have "tail_rows df lines (row - 1) (?out1 @ [Puts '' ''])
        = Some ((?out1 @ [Puts '' ''])
            @ concat (map (row_calls tail_cell df)
                (rev [nat (rows df - lines)..<nat (row - 1 + 1)])))"
      by (intro "1.IH" [OF d b True p m]) simp_all
    with True d b p m show ?thesis
      by (subst tail_rows.simps) (simp add: u row_calls_def)
  next
    case False
    with "1.prems" have "[nat (rows df - lines)..<nat (row + 1)] = []"
      by simp
    with False d b show ?thesis
      by (subst tail_rows.simps) simp
  qed
qed

text \<open>
  C8: for a table and a number of lines between 0 and its number of rows, \<open>head\<close>
  prints the rows 0 up to \<open>lines - 1\<close> in this order and \<open>tail\<close> prints the rows
  \<open>rows - 1\<close> down to \<open>rows - lines\<close>; with \<open>lines\<close> equal to the number of rows,
  \<open>head\<close> prints every row of the table in the original order and \<open>tail\<close> every row
  in the reverse order.
\<close>

theorem head_tail_rows:
  assumes "wf_table df" and "0 \<le> lines" and "lines \<le> rows df"
  shows
    "head df lines = Some (PrintfD head_top lines
        # concat (map (row_calls head_cell df) [0..<nat lines]) @ [PrintfS head_bottom]) \<and>
     tail df lines = Some (PrintfD tail_top lines
        # concat (map (row_calls tail_cell df) (rev [nat (rows df - lines)..<nat (rows df)]))
        @ [PrintfS tail_bottom]) \<and>
     head df (rows df) = Some (PrintfD head_top (rows df)
        # concat (map (row_calls head_cell df) [0..<length (dataFrame df)])
        @ [PrintfS head_bottom]) \<and>
     tail df (rows df) = Some (PrintfD tail_top (rows df)
        # concat (map (row_calls tail_cell df) (rev [0..<length (dataFrame df)]))
        @ [PrintfS tail_bottom])"
proof -
  from assms have r: "1 \<le> rows df" "rows df \<le> INT_MAX"
    by (simp_all add: wf_table_def)
  then have s: "c_sub (rows df) 1 = Some (rows df - 1)"
    by (simp add: c_sub_def in_int_def INT_MIN_def INT_MAX_def)
  have h: "head df n = Some (PrintfD head_top n
        # concat (map (row_calls head_cell df) [0..<nat n]) @ [PrintfS head_bottom])"
    if "n \<le> rows df" for n
    using assms(1) that head_rows_calls [of df 0 n "[PrintfD head_top n]"]
    by (simp add: head_def)
  have t: "tail df n = Some (PrintfD tail_top n
        # concat (map (row_calls tail_cell df) (rev [nat (rows df - n)..<nat (rows df)]))
        @ [PrintfS tail_bottom])"
    if "0 \<le> n" and "n \<le> rows df" for n
    using assms(1) that r s tail_rows_calls [of df n "rows df - 1" "[PrintfD tail_top n]"]
    by (simp add: tail_def)
  from assms(1) have l: "length (dataFrame df) = nat (rows df)"
    by (rule wf_table_length)
  from assms r show ?thesis
    using h [of lines] t [of lines] h [of "rows df"] t [of "rows df"]
    by (simp add: l)
qed

theorem head_tail_rows_witness:
  "wf_table \<lparr>rows = 3, cols = 2, dataFrame = [[Fin 1, Fin 2], [Fin 3, Fin 4], [Fin 5, Fin 6]]\<rparr> \<and>
   head \<lparr>rows = 3, cols = 2, dataFrame = [[Fin 1, Fin 2], [Fin 3, Fin 4], [Fin 5, Fin 6]]\<rparr> 2
     = Some [PrintfD head_top 2,
         PrintfF head_cell (Fin 1), PrintfF head_cell (Fin 2), Puts '' '',
         PrintfF head_cell (Fin 3), PrintfF head_cell (Fin 4), Puts '' '',
         PrintfS head_bottom] \<and>
   tail \<lparr>rows = 3, cols = 2, dataFrame = [[Fin 1, Fin 2], [Fin 3, Fin 4], [Fin 5, Fin 6]]\<rparr> 2
     = Some [PrintfD tail_top 2,
         PrintfF tail_cell (Fin 5), PrintfF tail_cell (Fin 6), Puts '' '',
         PrintfF tail_cell (Fin 3), PrintfF tail_cell (Fin 4), Puts '' '',
         PrintfS tail_bottom] \<and>
   head \<lparr>rows = 3, cols = 2, dataFrame = [[Fin 1, Fin 2], [Fin 3, Fin 4], [Fin 5, Fin 6]]\<rparr> 3
     = Some [PrintfD head_top 3,
         PrintfF head_cell (Fin 1), PrintfF head_cell (Fin 2), Puts '' '',
         PrintfF head_cell (Fin 3), PrintfF head_cell (Fin 4), Puts '' '',
         PrintfF head_cell (Fin 5), PrintfF head_cell (Fin 6), Puts '' '',
         PrintfS head_bottom] \<and>
   tail \<lparr>rows = 3, cols = 2, dataFrame = [[Fin 1, Fin 2], [Fin 3, Fin 4], [Fin 5, Fin 6]]\<rparr> 3
     = Some [PrintfD tail_top 3,
         PrintfF tail_cell (Fin 5), PrintfF tail_cell (Fin 6), Puts '' '',
         PrintfF tail_cell (Fin 3), PrintfF tail_cell (Fin 4), Puts '' '',
         PrintfF tail_cell (Fin 1), PrintfF tail_cell (Fin 2), Puts '' '',
         PrintfS tail_bottom]"
  using head_tail_rows [of "\<lparr>rows = 3, cols = 2, dataFrame = [[Fin 1, Fin 2], [Fin 3, Fin 4], [Fin 5, Fin 6]]\<rparr>" 2]
  by (simp add: wf_table_def INT_MAX_def row_calls_def upt_rec [of _ "Suc _"]
      upt_rec [of _ "numeral _"])

end
